theory Spec2Isabelle
  imports Main "HOL-Library.Sublist" "HOL-Library.Word"
begin

section \<open>Strings of the host language\<close>

text \<open>
  A TypeScript string is a sequence of UTF-16 code units. The model covers the strings
  whose code units are all below 256, one \<^typ>\<open>char\<close> per code unit, so that
  \<open>length\<close> is the source's \<open>.length\<close>, \<open>drop n\<close> is \<open>.slice(n)\<close> and
  \<open>prefix p s\<close> is \<open>s.startsWith(p)\<close>.
\<close>

definition cu :: "char \<Rightarrow> nat" where
  "cu c = of_char c"

text \<open>The character classes of the source's regular expressions.\<close>

definition is_digit :: "char \<Rightarrow> bool" where
  "is_digit c = (48 \<le> cu c \<and> cu c \<le> 57)"

definition is_alnum :: "char \<Rightarrow> bool" where
  \<comment> \<open>\<open>[a-zA-Z0-9]\<close>\<close>
  "is_alnum c = ((97 \<le> cu c \<and> cu c \<le> 122) \<or> (65 \<le> cu c \<and> cu c \<le> 90) \<or> is_digit c)"

definition is_hex :: "char \<Rightarrow> bool" where
  \<comment> \<open>\<open>[0-9a-f]\<close> under the flag \<open>i\<close>\<close>
  "is_hex c = (is_digit c \<or> (97 \<le> cu c \<and> cu c \<le> 102) \<or> (65 \<le> cu c \<and> cu c \<le> 70))"

definition is_space :: "char \<Rightarrow> bool" where
  \<comment> \<open>WhiteSpace and LineTerminator below 256: TAB, LF, VT, FF, CR, SP, NBSP\<close>
  "is_space c = (cu c \<in> {9, 10, 11, 12, 13, 32, 160})"

definition lower_char :: "char \<Rightarrow> char" where
  \<comment> \<open>\<open>A-Z\<close> and the Latin-1 capitals \<open>U+00C0..U+00DE\<close> (without the sign \<open>U+00D7\<close>)\<close>
  "lower_char c =
     (if (65 \<le> cu c \<and> cu c \<le> 90) \<or> (192 \<le> cu c \<and> cu c \<le> 222 \<and> cu c \<noteq> 215)
      then char_of (cu c + 32) else c)"

definition toLowerCase :: "string \<Rightarrow> string" where
  "toLowerCase s = map lower_char s"

definition trim :: "string \<Rightarrow> string" where
  "trim s = rev (dropWhile is_space (rev (dropWhile is_space s)))"

definition startsWith :: "string \<Rightarrow> string \<Rightarrow> bool" where
  "startsWith s p = prefix p s"

subsection \<open>The UUID pattern\<close>

text \<open>
  \<^verbatim>\<open>/^[0-9a-f]{8}-[0-9a-f]{4}-[0-9a-f]{4}-[0-9a-f]{4}-[0-9a-f]{12}$/i\<close>
  is a sequence of counted hex classes and literal hyphens, anchored at both ends.
\<close>

datatype atom = Hex nat | Lit char

fun matches :: "atom list \<Rightarrow> string \<Rightarrow> bool" where
  "matches [] s = (s = [])"
| "matches (Hex n # ps) s =
     (n \<le> length s \<and> list_all is_hex (take n s) \<and> matches ps (drop n s))"
| "matches (Lit c # ps) s =
     (case s of [] \<Rightarrow> False | x # xs \<Rightarrow> x = c \<and> matches ps xs)"

definition uuidRegex :: "atom list" where
  "uuidRegex = [Hex 8, Lit (CHR ''-''), Hex 4, Lit (CHR ''-''), Hex 4, Lit (CHR ''-''),
                Hex 4, Lit (CHR ''-''), Hex 12]"

definition isValidUUID :: "string \<Rightarrow> bool" where
  "isValidUUID i = matches uuidRegex i"

text \<open>
  The canonical textual form as the specification words it: five groups of 8, 4, 4, 4
  and 12 hexadecimal digits of either case, separated by hyphens.
\<close>

definition canonical_uuid_form :: "string \<Rightarrow> bool" where
  "canonical_uuid_form s =
     (\<exists>a b c d e. s = a @ ''-'' @ b @ ''-'' @ c @ ''-'' @ d @ ''-'' @ e \<and>
        length a = 8 \<and> length b = 4 \<and> length c = 4 \<and> length d = 4 \<and> length e = 12 \<and>
        list_all is_hex (a @ b @ c @ d @ e))"

subsection \<open>Numbers read from strings\<close>

text \<open>
  \<open>Number(s)\<close> is NaN exactly when \<open>s\<close>, with white space trimmed at both ends, is
  neither empty nor a \<open>StrNumericLiteral\<close> of the language: an optionally signed decimal
  literal or \<open>Infinity\<close>, or an unsigned integer literal with prefix \<open>0x\<close>, \<open>0o\<close>
  or \<open>0b\<close>.
\<close>

definition DecimalDigits :: "string \<Rightarrow> bool" where
  "DecimalDigits s = (s \<noteq> [] \<and> list_all is_digit s)"

definition ExponentPart :: "string \<Rightarrow> bool" where
  "ExponentPart s =
     (case s of
        [] \<Rightarrow> False
      | c # r \<Rightarrow> (c = CHR ''e'' \<or> c = CHR ''E'') \<and>
          (case r of
             [] \<Rightarrow> False
           | d # r' \<Rightarrow> if d = CHR ''+'' \<or> d = CHR ''-'' then DecimalDigits r'
                       else DecimalDigits r))"

definition UnsignedDecimalDigits :: "string \<Rightarrow> bool" where
  \<comment> \<open>digits with an optional fraction and exponent: \<open>12\<close>, \<open>12.\<close>, \<open>1.5\<close>, \<open>.5\<close>, \<open>1e3\<close>\<close>
  "UnsignedDecimalDigits s =
     (let ip = takeWhile is_digit s; r = dropWhile is_digit s in
      case r of
        [] \<Rightarrow> ip \<noteq> []
      | c # r' \<Rightarrow>
          if c = CHR ''.''
          then (let fp = takeWhile is_digit r'; r2 = dropWhile is_digit r' in
                (ip \<noteq> [] \<or> fp \<noteq> []) \<and> (r2 = [] \<or> ExponentPart r2))
          else ip \<noteq> [] \<and> ExponentPart r)"

definition StrUnsignedDecimalLiteral :: "string \<Rightarrow> bool" where
  "StrUnsignedDecimalLiteral s = (s = ''Infinity'' \<or> UnsignedDecimalDigits s)"

definition StrDecimalLiteral :: "string \<Rightarrow> bool" where
  "StrDecimalLiteral s =
     (case s of
        [] \<Rightarrow> False
      | c # r \<Rightarrow> if c = CHR ''+'' \<or> c = CHR ''-'' then StrUnsignedDecimalLiteral r
                  else StrUnsignedDecimalLiteral s)"

definition NonDecimalIntegerLiteral :: "string \<Rightarrow> bool" where
  "NonDecimalIntegerLiteral s =
     (case s of
        z # x # r \<Rightarrow> z = CHR ''0'' \<and> r \<noteq> [] \<and>
          ((x = CHR ''x'' \<or> x = CHR ''X'') \<and> list_all is_hex r \<or>
           (x = CHR ''o'' \<or> x = CHR ''O'') \<and> list_all (\<lambda>c. 48 \<le> cu c \<and> cu c \<le> 55) r \<or>
           (x = CHR ''b'' \<or> x = CHR ''B'') \<and> list_all (\<lambda>c. 48 \<le> cu c \<and> cu c \<le> 49) r)
      | _ \<Rightarrow> False)"

definition isNaN_Number :: "string \<Rightarrow> bool" where
  \<comment> \<open>\<open>isNaN(Number(s))\<close>\<close>
  "isNaN_Number s =
     (let t = trim s in \<not> (t = [] \<or> StrDecimalLiteral t \<or> NonDecimalIntegerLiteral t))"

text \<open>
  \<open>parseInt(s)\<close> without a radix: leading white space and one sign are skipped, a prefix
  \<open>0x\<close> selects radix 16, and the longest run of digits of the radix is read; no digit
  gives NaN (\<open>None\<close>). The value is exact for the inputs of fewer than 10 characters
  that the resolver passes.
\<close>

definition digit_value :: "char \<Rightarrow> nat" where
  "digit_value c =
     (if is_digit c then cu c - 48 else if 97 \<le> cu c then cu c - 87 else cu c - 55)"

definition parseInt :: "string \<Rightarrow> int option" where
  "parseInt s =
     (let s1 = dropWhile is_space s;
          neg = (case s1 of [] \<Rightarrow> False | c # _ \<Rightarrow> c = CHR ''-'');
          s2 = (case s1 of [] \<Rightarrow> [] | c # r \<Rightarrow> if c = CHR ''+'' \<or> c = CHR ''-'' then r else s1);
          hex = (prefix ''0x'' s2 \<or> prefix ''0X'' s2);
          s3 = (if hex then drop 2 s2 else s2);
          R = (if hex then 16 else 10);
          Z = takeWhile (if hex then is_hex else is_digit) s3
      in if Z = [] then None
         else Some ((if neg then - 1 else 1) *
                    int (foldl (\<lambda>a c. a * R + digit_value c) 0 Z)))"




subsection \<open>Sorting with a comparator\<close>

text \<open>
  \<open>Array.prototype.sort\<close> is stable: with a comparator \<open>cmp\<close>, an element stays in
  front of a later one unless \<open>cmp\<close> puts it strictly behind.
\<close>

fun insort_by :: "('a \<Rightarrow> 'a \<Rightarrow> int) \<Rightarrow> 'a \<Rightarrow> 'a list \<Rightarrow> 'a list" where
  "insort_by cmp x [] = [x]"
| "insort_by cmp x (y # ys) = (if cmp x y \<le> 0 then x # y # ys else y # insort_by cmp x ys)"

definition Array_sort :: "('a \<Rightarrow> 'a \<Rightarrow> int) \<Rightarrow> 'a list \<Rightarrow> 'a list" where
  "Array_sort cmp xs = foldr (insort_by cmp) xs []"

section \<open>The data store\<close>

text \<open>
  Modelled from the spec: the query client \<open>supabase\<close> and the hosted store behind it
  are not among the sources. The specification describes them as directory services over
  classes (name and id) and students (id, class, name, sequence number, scores) that answer
  a failed lookup with "not found"; the sources add what the columns are. The store is two
  tables and a log of the queries issued. The \<open>id\<close> and \<open>class_id\<close> columns have the
  store's \<open>uuid\<close> type (a text that is no UUID makes a query fail with error 22P02,
  which \<open>getStudent\<close> guards against); a value of that type is kept as the lower-case
  text the store prints, and is compared by value. The column \<open>unique_number\<close> is
  declared \<open>INTEGER\<close> (the message of \<open>ensureClassStudentNumbers\<close>), a signed 32-bit
  value. The scores are numeric; no property below depends on them and they are kept as
  integers. A query fails only as stated with its definition.
\<close>

record class_row =
  cr_id :: string
  cr_name :: string
  cr_description :: "string option"

record student_row =
  sr_id :: string
  sr_class_id :: "string option"
  sr_name :: "string option"
  sr_unique_number :: "32 word option"
  sr_note1 :: "int option"
  sr_note2 :: "int option"
  sr_note3 :: "int option"

datatype query =
    SelectClasses
  | SelectClass string
  | SelectStudentsOfClass string
  | SelectStudent string
  | SelectStudentsEqClass "string option"
  | UpsertStudent

record store =
  classes :: "class_row list"
  students :: "student_row list"
  issued :: "query list"

datatype pg_error = E22P02 | E22003 | E23505 | E42703 | PGRST116

definition uuid_in :: "string \<Rightarrow> pg_error + string" where
  \<comment> \<open>Modelled from the spec: a text compared with a \<open>uuid\<close> column gives its value,
      or error 22P02 when it is no UUID\<close>
  "uuid_in s = (if isValidUUID s then Inr (toLowerCase s) else Inl E22P02)"

definition maybeSingle :: "'a list \<Rightarrow> pg_error + 'a option" where
  \<comment> \<open>Modelled from the spec: the client's \<open>maybeSingle\<close>, no row or one row; more than
      one row is error PGRST116\<close>
  "maybeSingle rows =
     (case rows of [] \<Rightarrow> Inr None | [r] \<Rightarrow> Inr (Some r) | _ \<Rightarrow> Inl PGRST116)"

definition ask :: "query \<Rightarrow> store \<Rightarrow> store" where
  "ask q db = db\<lparr>issued := issued db @ [q]\<rparr>"

definition select_student :: "string \<Rightarrow> store \<Rightarrow> (pg_error + student_row option) \<times> store" where
  \<comment> \<open>Modelled from the spec:
      \<open>from('students').select('*').eq('id', id).maybeSingle()\<close>\<close>
  "select_student i db =
     (case uuid_in i of
        Inl e \<Rightarrow> (Inl e, ask (SelectStudent i) db)
      | Inr u \<Rightarrow> (maybeSingle (filter (\<lambda>r. sr_id r = u) (students db)),
                  ask (SelectStudent i) db))"

definition select_classes :: "store \<Rightarrow> (pg_error + class_row list) \<times> store" where
  \<comment> \<open>Modelled from the spec: \<open>from('classes').select('*').order('created_at')\<close>;
      the table is kept in that order\<close>
  "select_classes db = (Inr (classes db), ask SelectClasses db)"

definition select_class :: "string \<Rightarrow> store \<Rightarrow> (pg_error + class_row option) \<times> store" where
  \<comment> \<open>Modelled from the spec:
      \<open>from('classes').select('*').eq('id', id).maybeSingle()\<close>\<close>
  "select_class i db =
     (case uuid_in i of
        Inl e \<Rightarrow> (Inl e, ask (SelectClass i) db)
      | Inr u \<Rightarrow> (maybeSingle (filter (\<lambda>r. cr_id r = u) (classes db)),
                  ask (SelectClass i) db))"

text \<open>
  Modelled from the spec: \<open>order('name')\<close> is the store's own ordering of the
  \<open>name\<close> column, taken here as the order of the code units with NULL last. The
  service sorts the rows again, so the store's order only decides between rows that the
  service's comparator holds equal.
\<close>

fun text_le :: "string \<Rightarrow> string \<Rightarrow> bool" where
  "text_le [] ys = True"
| "text_le (x # xs) [] = False"
| "text_le (x # xs) (y # ys) = (cu x < cu y \<or> (x = y \<and> text_le xs ys))"

definition name_order :: "student_row \<Rightarrow> student_row \<Rightarrow> int" where
  "name_order a b =
     (case (sr_name a, sr_name b) of
        (None, None) \<Rightarrow> 0
      | (None, Some y) \<Rightarrow> 1
      | (Some x, None) \<Rightarrow> - 1
      | (Some x, Some y) \<Rightarrow> if x = y then 0 else if text_le x y then - 1 else 1)"

definition students_of_class :: "string option \<Rightarrow> store \<Rightarrow> pg_error + student_row list" where
  \<comment> \<open>Modelled from the spec: the rows with \<open>class_id\<close> equal to the given text;
      \<open>undefined\<close> is no UUID\<close>
  "students_of_class classId db =
     (case classId of
        None \<Rightarrow> Inl E22P02
      | Some c \<Rightarrow>
          (case uuid_in c of
             Inl e \<Rightarrow> Inl e
           | Inr u \<Rightarrow> Inr (filter (\<lambda>r. sr_class_id r = Some u) (students db))))"

definition select_students_by_name ::
    "string \<Rightarrow> store \<Rightarrow> (pg_error + student_row list) \<times> store" where
  \<comment> \<open>Modelled from the spec:
      \<open>from('students').select('*').eq('class_id', classId).order('name')\<close>\<close>
  "select_students_by_name classId db =
     (case students_of_class (Some classId) db of
        Inl e \<Rightarrow> (Inl e, ask (SelectStudentsOfClass classId) db)
      | Inr rows \<Rightarrow> (Inr (Array_sort name_order rows), ask (SelectStudentsOfClass classId) db))"







section \<open>The store services\<close>

record ClassGroup =
  cg_id :: string
  cg_name :: string
  cg_description :: string

record Student =
  st_id :: string
  st_classId :: "string option"
  st_name :: string
  st_uniqueId :: "int option"
  st_note1 :: int
  st_note2 :: int
  st_note3 :: int

definition mapClassFromDB :: "class_row \<Rightarrow> ClassGroup" where
  "mapClassFromDB data =
     \<lparr>cg_id = cr_id data, cg_name = cr_name data,
      cg_description = (case cr_description data of None \<Rightarrow> [] | Some d \<Rightarrow> d)\<rparr>"

definition mapStudentFromDB :: "student_row \<Rightarrow> Student" where
  "mapStudentFromDB data =
     \<lparr>st_id = sr_id data,
      st_classId = sr_class_id data,
      st_name = (case sr_name data of None \<Rightarrow> [] | Some n \<Rightarrow> n),
      st_uniqueId = (case sr_unique_number data of
                       None \<Rightarrow> None
                     | Some w \<Rightarrow> if sint w = 0 then None else Some (sint w)),
      st_note1 = (case sr_note1 data of None \<Rightarrow> 0 | Some n \<Rightarrow> n),
      st_note2 = (case sr_note2 data of None \<Rightarrow> 0 | Some n \<Rightarrow> n),
      st_note3 = (case sr_note3 data of None \<Rightarrow> 0 | Some n \<Rightarrow> n)\<rparr>"

definition getClasses :: "store \<Rightarrow> ClassGroup list \<times> store" where
  "getClasses db =
     (case select_classes db of
        (Inl error, db') \<Rightarrow> ([], db')
      | (Inr data, db') \<Rightarrow> (map mapClassFromDB data, db'))"

definition getClass :: "string \<Rightarrow> store \<Rightarrow> ClassGroup option \<times> store" where
  "getClass i db =
     (case select_class i db of
        (Inl error, db') \<Rightarrow> (None, db')
      | (Inr None, db') \<Rightarrow> (None, db')
      | (Inr (Some data), db') \<Rightarrow> (Some (mapClassFromDB data), db'))"

definition MAX_SAFE_INTEGER :: int where
  "MAX_SAFE_INTEGER = 9007199254740991"

text \<open>
  \<open>localeCompare\<close> is the host's collation of two names; it is a parameter of the
  services that use it.
\<close>

definition by_uniqueId_then_name ::
    "(string \<Rightarrow> string \<Rightarrow> int) \<Rightarrow> Student \<Rightarrow> Student \<Rightarrow> int" where
  \<comment> \<open>the comparator of \<open>getStudents\<close>\<close>
  "by_uniqueId_then_name localeCompare a b =
     (let idA = (case st_uniqueId a of None \<Rightarrow> MAX_SAFE_INTEGER | Some n \<Rightarrow> n);
          idB = (case st_uniqueId b of None \<Rightarrow> MAX_SAFE_INTEGER | Some n \<Rightarrow> n)
      in if idA \<noteq> idB then idA - idB else localeCompare (st_name a) (st_name b))"

definition getStudents ::
    "(string \<Rightarrow> string \<Rightarrow> int) \<Rightarrow> string \<Rightarrow> store \<Rightarrow> Student list \<times> store" where
  "getStudents localeCompare classId db =
     (case select_students_by_name classId db of
        (Inl error, db') \<Rightarrow> ([], db')
      | (Inr data, db') \<Rightarrow>
          (Array_sort (by_uniqueId_then_name localeCompare) (map mapStudentFromDB data), db'))"

definition getStudent :: "string \<Rightarrow> store \<Rightarrow> Student option \<times> store" where
  "getStudent i db =
     (if \<not> isValidUUID i then (None, db)
      else (case select_student i db of
              (Inl error, db') \<Rightarrow> (None, db')
            | (Inr None, db') \<Rightarrow> (None, db')
            | (Inr (Some data), db') \<Rightarrow> (Some (mapStudentFromDB data), db')))"




section \<open>The student profile page\<close>

definition cleanName_of :: "string \<Rightarrow> string" where
  \<comment> \<open>\<open>name.replace(/[^a-zA-Z0-9]/g, '').toLowerCase()\<close>\<close>
  "cleanName_of name = toLowerCase (filter is_alnum name)"

definition cleanRemainder_of :: "string \<Rightarrow> string \<Rightarrow> string" where
  "cleanRemainder_of i cleanName =
     (let remainder = drop (length cleanName) i;
          remainder = (if startsWith remainder ''_'' then drop 1 remainder else remainder)
      in trim remainder)"

definition numeric_case :: "string \<Rightarrow> bool" where
  \<comment> \<open>the condition of "Case 1"\<close>
  "numeric_case cleanRemainder =
     (\<not> isNaN_Number cleanRemainder \<and> length cleanRemainder > 0 \<and> length cleanRemainder < 10)"

text \<open>
  The condition of the numeric branch as the specification words it: a non-empty string of
  decimal digits, shorter than 10 characters.
\<close>

definition short_decimal_digits :: "string \<Rightarrow> bool" where
  "short_decimal_digits r = (r \<noteq> [] \<and> list_all is_digit r \<and> length r < 10)"

definition queries_of :: "store \<Rightarrow> store \<Rightarrow> query list" where
  \<comment> \<open>the queries issued on the way from one state of the store to a later one\<close>
  "queries_of db db' = drop (length (issued db)) (issued db')"

text \<open>
  One turn of the loop over the sorted classes. \<open>fetchedStudent\<close> is null whenever a turn
  begins, since a turn that finds a student leaves the loop. A strict comparison with NaN
  is false, so a remainder that \<open>parseInt\<close> cannot read finds nobody.
\<close>

definition try_class ::
    "(string \<Rightarrow> string \<Rightarrow> int) \<Rightarrow> string \<Rightarrow> ClassGroup \<Rightarrow> store \<Rightarrow> Student option \<times> store" where
  "try_class localeCompare i cls db =
     (let cleanName = cleanName_of (cg_name cls) in
      if startsWith (toLowerCase i) cleanName then
        (let cleanRemainder = cleanRemainder_of i cleanName;
             (fetchedStudent, db1) =
               (if numeric_case cleanRemainder then
                  (let uniqueNum = parseInt cleanRemainder;
                       (studentsInClass, db') = getStudents localeCompare (cg_id cls) db
                   in (find (\<lambda>s. uniqueNum \<noteq> None \<and> st_uniqueId s = uniqueNum) studentsInClass,
                       db'))
                else (None, db))
         in case fetchedStudent of
              Some s \<Rightarrow> (Some s, db1)
            | None \<Rightarrow>
                if matches uuidRegex cleanRemainder then getStudent cleanRemainder db1
                else (None, db1))
      else (None, db))"

fun scan ::
    "(string \<Rightarrow> string \<Rightarrow> int) \<Rightarrow> string \<Rightarrow> ClassGroup list \<Rightarrow> store \<Rightarrow>
       (Student option \<times> ClassGroup option) \<times> store" where
  "scan localeCompare i [] db = ((None, None), db)"
| "scan localeCompare i (cls # rest) db =
     (case try_class localeCompare i cls db of
        (Some s, db') \<Rightarrow> ((Some s, Some cls), db')
      | (None, db') \<Rightarrow> scan localeCompare i rest db')"

definition by_name_length_desc :: "ClassGroup \<Rightarrow> ClassGroup \<Rightarrow> int" where
  "by_name_length_desc a b = int (length (cg_name b)) - int (length (cg_name a))"

definition fetchData ::
    "(string \<Rightarrow> string \<Rightarrow> int) \<Rightarrow> string \<Rightarrow> store \<Rightarrow>
       (Student option \<times> ClassGroup option) \<times> store" where
  "fetchData localeCompare i db =
     (if i = [] then ((None, None), db)
      else
        (let (allClasses, db1) = getClasses db;
             sortedClasses = Array_sort by_name_length_desc allClasses;
             ((fetchedStudent, fetchedClass), db2) = scan localeCompare i sortedClasses db1;
             (fetchedStudent, db3) =
               (case fetchedStudent of
                  None \<Rightarrow> getStudent i db2
                | Some s \<Rightarrow> (Some s, db2));
             (fetchedClass, db4) =
               (case (fetchedStudent, fetchedClass) of
                  (Some s, None) \<Rightarrow>
                    (case st_classId s of
                       None \<Rightarrow> (None, db3)
                     | Some c \<Rightarrow> if c = [] then (None, db3) else getClass c db3)
                | _ \<Rightarrow> (fetchedClass, db3))
         in ((fetchedStudent, fetchedClass), db4)))"


section \<open>Example directories\<close>

text \<open>Small stores on which the theorems below are instantiated.\<close>

definition example_class :: "string \<Rightarrow> string \<Rightarrow> class_row" where
  "example_class i n = \<lparr>cr_id = i, cr_name = n, cr_description = None\<rparr>"

definition example_student :: "string \<Rightarrow> string \<Rightarrow> string \<Rightarrow> 32 word option \<Rightarrow> student_row" where
  "example_student i c n u =
     \<lparr>sr_id = i, sr_class_id = Some c, sr_name = Some n, sr_unique_number = u,
      sr_note1 = None, sr_note2 = None, sr_note3 = None\<rparr>"

definition ann :: student_row where
  "ann = example_student ''bbbbbbbb-0000-4000-8000-000000000001''
           ''aaaaaaaa-0000-4000-8000-000000000001'' ''Ann'' (Some 25)"

definition bob :: student_row where
  "bob = example_student ''bbbbbbbb-0000-4000-8000-000000000002''
           ''aaaaaaaa-0000-4000-8000-000000000002'' ''Bob'' (Some 5)"

definition two_grades :: store where
  \<comment> \<open>"Grade 1" with Ann, number 25, and "Grade 12" with Bob, number 5\<close>
  "two_grades =
     \<lparr>classes = [example_class ''aaaaaaaa-0000-4000-8000-000000000001'' ''Grade 1'',
                 example_class ''aaaaaaaa-0000-4000-8000-000000000002'' ''Grade 12''],
      students = [ann, bob], issued = []\<rparr>"

definition spaced_grades :: store where
  \<comment> \<open>the same classes, the shorter clean name now carried by the longer raw name\<close>
  "spaced_grades =
     \<lparr>classes = [example_class ''aaaaaaaa-0000-4000-8000-000000000001'' ''G r a d e 1'',
                 example_class ''aaaaaaaa-0000-4000-8000-000000000002'' ''Grade12''],
      students = [ann, bob], issued = []\<rparr>"


definition dan :: student_row where
  "dan = example_student ''bbbbbbbb-0000-4000-8000-000000000004''
           ''aaaaaaaa-0000-4000-8000-000000000004'' ''Dan'' (Some 12)"

definition eve :: student_row where
  "eve = example_student ''bbbbbbbb-0000-4000-8000-000000000005''
           ''aaaaaaaa-0000-4000-8000-000000000004'' ''Eve'' None"

definition fifth_grade :: store where
  \<comment> \<open>"5th Grade" with Dan, number 12, and Eve, who has no number\<close>
  "fifth_grade =
     \<lparr>classes = [example_class ''aaaaaaaa-0000-4000-8000-000000000004'' ''5th Grade''],
      students = [dan, eve], issued = []\<rparr>"


definition fay :: student_row where
  "fay = example_student ''bbbbbbbb-0000-4000-8000-000000000006''
           ''aaaaaaaa-0000-4000-8000-000000000005'' ''Fay'' None"

definition gus :: student_row where
  "gus = example_student ''bbbbbbbb-0000-4000-8000-000000000007''
           ''aaaaaaaa-0000-4000-8000-000000000005'' ''Gus'' (Some 3)"

definition hal :: student_row where
  "hal = example_student ''bbbbbbbb-0000-4000-8000-000000000008''
           ''aaaaaaaa-0000-4000-8000-000000000005'' ''Hal'' (Some 1)"

definition abe :: student_row where
  "abe = example_student ''bbbbbbbb-0000-4000-8000-000000000009''
           ''aaaaaaaa-0000-4000-8000-000000000005'' ''Abe'' None"

definition art_class :: store where
  \<comment> \<open>"Art" with Gus, number 3, Hal, number 1, and Fay and Abe, who have no number\<close>
  "art_class =
     \<lparr>classes = [example_class ''aaaaaaaa-0000-4000-8000-000000000005'' ''Art''],
      students = [fay, gus, hal, abe], issued = []\<rparr>"

definition code_unit_collation :: "string \<Rightarrow> string \<Rightarrow> int" where
  \<comment> \<open>a host collation that orders names by their code units\<close>
  "code_unit_collation x y = (if x = y then 0 else if text_le x y then - 1 else 1)"


definition class_of :: "store \<Rightarrow> nat \<Rightarrow> ClassGroup" where
  \<comment> \<open>the class of the n-th row of the class table, as \<open>getClasses\<close> returns it\<close>
  "class_of db n = mapClassFromDB (classes db ! n)"

definition no_collation :: "string \<Rightarrow> string \<Rightarrow> int" where
  \<comment> \<open>a host collation that holds all names equal\<close>
  "no_collation x y = 0"

section \<open>Properties\<close>

subsection \<open>The UUID pattern is the canonical form\<close>

lemma matches_LitD: "matches (Lit c # ps) s \<Longrightarrow> \<exists>r. s = c # r \<and> matches ps r"
  by (cases s) auto

lemma matches_HexD:
  "matches (Hex n # ps) s \<Longrightarrow>
     \<exists>a r. s = a @ r \<and> length a = n \<and> list_all is_hex a \<and> matches ps r"
  by (rule exI [of _ "take n s"], rule exI [of _ "drop n s"]) simp

lemma matches_LitHexD:
  assumes "matches (Lit c # Hex n # ps) s"
  shows "\<exists>a r. s = c # a @ r \<and> length a = n \<and> list_all is_hex a \<and> matches ps r"
proof -
  from matches_LitD [OF assms] obtain r0 where r0: "s = c # r0" "matches (Hex n # ps) r0"
    by blast
  from matches_HexD [OF r0(2)] r0(1) show ?thesis
    by auto
qed

lemma isValidUUID_canonical:
  assumes "isValidUUID s" shows "canonical_uuid_form s"
proof -
  from assms have "matches (Hex 8 # [Lit (CHR ''-''), Hex 4, Lit (CHR ''-''), Hex 4,
      Lit (CHR ''-''), Hex 4, Lit (CHR ''-''), Hex 12]) s"
    by (simp only: isValidUUID_def uuidRegex_def)
  from matches_HexD [OF this] obtain a r1 where 1: "s = a @ r1" "length a = 8" "list_all is_hex a"
     "matches [Lit (CHR ''-''), Hex 4, Lit (CHR ''-''), Hex 4, Lit (CHR ''-''),
                Hex 4, Lit (CHR ''-''), Hex 12] r1"
    by blast
  from matches_LitHexD [OF 1(4)] obtain b r2 where
    2: "r1 = CHR ''-'' # b @ r2" "length b = 4" "list_all is_hex b"
     "matches [Lit (CHR ''-''), Hex 4, Lit (CHR ''-''), Hex 4, Lit (CHR ''-''), Hex 12] r2"
    by blast
  from matches_LitHexD [OF 2(4)] obtain c r3 where
    3: "r2 = CHR ''-'' # c @ r3" "length c = 4" "list_all is_hex c"
     "matches [Lit (CHR ''-''), Hex 4, Lit (CHR ''-''), Hex 12] r3"
    by blast
  from matches_LitHexD [OF 3(4)] obtain d r4 where
    4: "r3 = CHR ''-'' # d @ r4" "length d = 4" "list_all is_hex d"
     "matches [Lit (CHR ''-''), Hex 12] r4"
    by blast
  from matches_LitHexD [OF 4(4)] obtain e r5 where
    5: "r4 = CHR ''-'' # e @ r5" "length e = 12" "list_all is_hex e" "matches [] r5"
    by blast
  have "s = a @ ''-'' @ b @ ''-'' @ c @ ''-'' @ d @ ''-'' @ e"
    using 1(1) 2(1) 3(1) 4(1) 5(1) 5(4) by simp
  moreover have "list_all is_hex (a @ b @ c @ d @ e)"
    using 1(3) 2(3) 3(3) 4(3) 5(3) by simp
  ultimately show ?thesis
    unfolding canonical_uuid_form_def using 1(2) 2(2) 3(2) 4(2) 5(2) by blast
qed

lemma matches_HexI:
  "length a = n \<Longrightarrow> list_all is_hex a \<Longrightarrow> matches ps r \<Longrightarrow> matches (Hex n # ps) (a @ r)"
  by simp

lemma matches_LitI: "matches ps r \<Longrightarrow> matches (Lit c # ps) (c # r)"
  by simp

lemma canonical_isValidUUID:
  assumes "canonical_uuid_form s" shows "isValidUUID s"
proof -
  from assms obtain a b c d e where
    s: "s = a @ CHR ''-'' # b @ CHR ''-'' # c @ CHR ''-'' # d @ CHR ''-'' # e" and
    l: "length a = 8" "length b = 4" "length c = 4" "length d = 4" "length e = 12" and
    h: "list_all is_hex a" "list_all is_hex b" "list_all is_hex c" "list_all is_hex d"
       "list_all is_hex e"
    unfolding canonical_uuid_form_def by auto
  have "matches [Hex 12] e"
    using l(5) h(5) by simp
  note matches_HexI [OF l(4) h(4) matches_LitI [OF this]]
  note matches_HexI [OF l(3) h(3) matches_LitI [OF this]]
  note matches_HexI [OF l(2) h(2) matches_LitI [OF this]]
  note matches_HexI [OF l(1) h(1) matches_LitI [OF this]]
  then show ?thesis
    by (simp only: isValidUUID_def uuidRegex_def s)
qed

lemma isValidUUID_iff: "isValidUUID s = canonical_uuid_form s"
  using isValidUUID_canonical canonical_isValidUUID by blast

text \<open>
  C8. For every string that does not have the canonical UUID form (five hyphen-separated
  groups of 8, 4, 4, 4 and 12 hex digits, in either case), \<open>getStudent\<close> returns "not
  found" and leaves the store as it was: no error value arises and the log of issued
  queries is unchanged.
\<close>

theorem getStudent_rejects_non_uuid:
  "\<not> canonical_uuid_form i \<Longrightarrow> getStudent i db = (None, db)"
  by (simp add: getStudent_def isValidUUID_iff)

theorem getStudent_rejects_non_uuid_witness:
  "\<not> canonical_uuid_form ''5thGrade12'' \<and>
   getStudent ''5thGrade12'' \<lparr>classes = [], students = [], issued = []\<rparr>
     = (None, \<lparr>classes = [], students = [], issued = []\<rparr>)"
proof -
  have h: "\<not> canonical_uuid_form ''5thGrade12''"
    by (simp add: isValidUUID_iff [symmetric] isValidUUID_def uuidRegex_def)
  show ?thesis
    using h getStudent_rejects_non_uuid [OF h] by simp
qed

subsection \<open>Reads leave the tables alone and ignore the log\<close>

lemma getStudent_log: "fst (getStudent i (db\<lparr>issued := l\<rparr>)) = fst (getStudent i db)"
  by (simp add: getStudent_def select_student_def ask_def split: sum.splits option.splits)

lemma getStudent_snd: "\<exists>qs. snd (getStudent i db) = db\<lparr>issued := issued db @ qs\<rparr>"
proof (cases "isValidUUID i")
  case False
  then have "snd (getStudent i db) = db\<lparr>issued := issued db @ []\<rparr>"
    by (simp add: getStudent_def)
  then show ?thesis by blast
next
  case True
  then have "snd (getStudent i db) = db\<lparr>issued := issued db @ [SelectStudent i]\<rparr>"
    by (simp add: getStudent_def select_student_def ask_def split: sum.splits option.splits)
  then show ?thesis by blast
qed

lemma getStudents_log:
  "fst (getStudents lc c (db\<lparr>issued := l\<rparr>)) = fst (getStudents lc c db)"
  by (simp add: getStudents_def select_students_by_name_def students_of_class_def ask_def
      split: sum.splits option.splits)

lemma getStudents_snd:
  "snd (getStudents lc c db) = db\<lparr>issued := issued db @ [SelectStudentsOfClass c]\<rparr>"
  by (simp add: getStudents_def select_students_by_name_def students_of_class_def ask_def
      split: sum.splits option.splits)

lemma getClass_log: "fst (getClass i (db\<lparr>issued := l\<rparr>)) = fst (getClass i db)"
  by (simp add: getClass_def select_class_def ask_def split: sum.splits option.splits)

lemma getClasses_fst: "fst (getClasses db) = map mapClassFromDB (classes db)"
  by (simp add: getClasses_def select_classes_def)

lemma getClasses_snd: "snd (getClasses db) = db\<lparr>issued := issued db @ [SelectClasses]\<rparr>"
  by (simp add: getClasses_def select_classes_def ask_def)

lemma try_class_log:
  "fst (try_class lc i cls (db\<lparr>issued := l\<rparr>)) = fst (try_class lc i cls db)"
  unfolding try_class_def Let_def case_prod_beta
  by (simp add: getStudents_log getStudents_snd getStudent_log split: option.splits)

lemma try_class_snd: "\<exists>qs. snd (try_class lc i cls db) = db\<lparr>issued := issued db @ qs\<rparr>"
proof -
  have triv: "db = db\<lparr>issued := issued db @ []\<rparr>"
    by simp
  obtain q1 where q1: "snd (getStudent (cleanRemainder_of i (cleanName_of (cg_name cls))) db)
      = db\<lparr>issued := issued db @ q1\<rparr>"
    using getStudent_snd by blast
  obtain q2 where q2: "snd (getStudent (cleanRemainder_of i (cleanName_of (cg_name cls)))
        (db\<lparr>issued := issued db @ [SelectStudentsOfClass (cg_id cls)]\<rparr>))
      = db\<lparr>issued := issued db @ [SelectStudentsOfClass (cg_id cls)] @ q2\<rparr>"
    using getStudent_snd [of _ "db\<lparr>issued := issued db @ [SelectStudentsOfClass (cg_id cls)]\<rparr>"]
    by auto
  show ?thesis
    unfolding try_class_def Let_def case_prod_beta
    using triv q1 q2
    by (auto simp: getStudents_snd split: option.splits intro: exI [of _ "[]"])
qed

lemma scan_step:
  "scan lc i (cls # rest) db =
     (case fst (try_class lc i cls db) of
        Some s \<Rightarrow> ((Some s, Some cls), snd (try_class lc i cls db))
      | None \<Rightarrow> scan lc i rest (snd (try_class lc i cls db)))"
  by (simp add: case_prod_beta split: option.splits)

declare scan.simps(2) [simp del]

lemma scan_log: "fst (scan lc i cs (db\<lparr>issued := l\<rparr>)) = fst (scan lc i cs db)"
proof (induction cs arbitrary: db l)
  case Nil
  show ?case by simp
next
  case (Cons c cs)
  obtain q1 where q1: "snd (try_class lc i c (db\<lparr>issued := l\<rparr>)) = db\<lparr>issued := l @ q1\<rparr>"
    using try_class_snd [of lc i c "db\<lparr>issued := l\<rparr>"] by auto
  obtain q2 where q2: "snd (try_class lc i c db) = db\<lparr>issued := issued db @ q2\<rparr>"
    using try_class_snd by blast
  show ?case
    unfolding scan_step q1 q2 try_class_log
    by (simp add: Cons.IH split: option.splits)
qed

lemma scan_Cons:
  "fst (scan lc i (cls # rest) db) =
     (case fst (try_class lc i cls db) of
        Some s \<Rightarrow> (Some s, Some cls)
      | None \<Rightarrow> fst (scan lc i rest db))"
proof -
  obtain q where q: "snd (try_class lc i cls db) = db\<lparr>issued := issued db @ q\<rparr>"
    using try_class_snd by blast
  show ?thesis
    unfolding scan_step q by (simp add: scan_log split: option.splits)
qed

lemma scan_snd: "\<exists>qs. snd (scan lc i cs db) = db\<lparr>issued := issued db @ qs\<rparr>"
proof (induction cs arbitrary: db)
  case Nil
  have "snd (scan lc i [] db) = db\<lparr>issued := issued db @ []\<rparr>" by simp
  then show ?case by blast
next
  case (Cons c cs)
  obtain q where q: "snd (try_class lc i c db) = db\<lparr>issued := issued db @ q\<rparr>"
    using try_class_snd by blast
  obtain q' where q': "snd (scan lc i cs (db\<lparr>issued := issued db @ q\<rparr>))
      = db\<lparr>issued := issued db @ q @ q'\<rparr>"
    using Cons.IH [of "db\<lparr>issued := issued db @ q\<rparr>"] by auto
  show ?case
    unfolding scan_step q using q' by (auto split: option.splits)
qed

lemma scan_append:
  "fst (scan lc i (pre @ post) db) =
     (case fst (fst (scan lc i pre db)) of
        Some s \<Rightarrow> fst (scan lc i pre db)
      | None \<Rightarrow> fst (scan lc i post db))"
  by (induction pre) (simp_all add: scan_Cons split: option.splits)

text \<open>The outcome of the whole resolution, read off the pure results of its steps.\<close>

lemma fetchData_student:
  assumes "i \<noteq> []"
  shows "fst (fst (fetchData lc i db)) =
     (case fst (fst (scan lc i (Array_sort by_name_length_desc (fst (getClasses db))) db)) of
        Some s \<Rightarrow> Some s
      | None \<Rightarrow> fst (getStudent i db))"
proof -
  let ?cs = "Array_sort by_name_length_desc (fst (getClasses db))"
  let ?db1 = "db\<lparr>issued := issued db @ [SelectClasses]\<rparr>"
  obtain q where q: "snd (scan lc i ?cs ?db1) = db\<lparr>issued := issued db @ [SelectClasses] @ q\<rparr>"
    using scan_snd [of lc i ?cs ?db1] by auto
  have f: "fst (scan lc i ?cs ?db1) = fst (scan lc i ?cs db)"
    by (rule scan_log)
  show ?thesis
    using assms f q
    by (simp add: fetchData_def Let_def case_prod_beta getClasses_snd getStudent_log
        split: option.splits)
qed


lemma scan_shape:
  "fst (scan lc i cs db) = (None, None) \<or>
   (\<exists>s c. c \<in> set cs \<and> fst (try_class lc i c db) = Some s \<and>
      fst (scan lc i cs db) = (Some s, Some c))"
  by (induction cs) (auto simp: scan_Cons split: option.splits)

lemma fetchData_fst:
  assumes "i \<noteq> []"
  shows "fst (fetchData lc i db) =
     (case fst (fst (scan lc i (Array_sort by_name_length_desc (fst (getClasses db))) db)) of
        Some s \<Rightarrow> fst (scan lc i (Array_sort by_name_length_desc (fst (getClasses db))) db)
      | None \<Rightarrow>
          (case fst (getStudent i db) of
             None \<Rightarrow> (None, None)
           | Some s \<Rightarrow>
               (Some s, case st_classId s of
                          None \<Rightarrow> None
                        | Some c \<Rightarrow> if c = [] then None else fst (getClass c db))))"
proof -
  let ?cs = "Array_sort by_name_length_desc (fst (getClasses db))"
  let ?db1 = "db\<lparr>issued := issued db @ [SelectClasses]\<rparr>"
  obtain q where q: "snd (scan lc i ?cs ?db1) = db\<lparr>issued := issued db @ [SelectClasses] @ q\<rparr>"
    using scan_snd [of lc i ?cs ?db1] by auto
  obtain q' where q': "snd (getStudent i (db\<lparr>issued := issued db @ [SelectClasses] @ q\<rparr>))
      = db\<lparr>issued := issued db @ [SelectClasses] @ q @ q'\<rparr>"
    using getStudent_snd [of i "db\<lparr>issued := issued db @ [SelectClasses] @ q\<rparr>"] by auto
  have f: "fst (scan lc i ?cs ?db1) = fst (scan lc i ?cs db)"
    by (rule scan_log)
  from scan_shape [of lc i ?cs db] show ?thesis
  proof
    assume n: "fst (scan lc i ?cs db) = (None, None)"
    show ?thesis
      using assms f q q' n
      by (simp add: fetchData_def Let_def case_prod_beta getClasses_snd getStudent_log
          getClass_log split: option.splits)
  next
    assume "\<exists>s c. c \<in> set ?cs \<and> fst (try_class lc i c db) = Some s \<and>
      fst (scan lc i ?cs db) = (Some s, Some c)"
    then obtain s c where n: "fst (scan lc i ?cs db) = (Some s, Some c)"
      by blast
    show ?thesis
      using assms f q n
      by (simp add: fetchData_def Let_def case_prod_beta getClasses_snd)
  qed
qed

subsection \<open>Sorting\<close>

lemma set_insort_by: "set (insort_by cmp x xs) = insert x (set xs)"
  by (induction xs) auto

lemma set_Array_sort: "set (Array_sort cmp xs) = set xs"
  unfolding Array_sort_def by (induction xs) (simp_all add: set_insort_by)

lemma sorted_insort_by:
  assumes tot: "\<And>a b. cmp a b \<le> 0 \<or> cmp b a \<le> 0"
    and trans: "\<And>a b c. cmp a b \<le> 0 \<Longrightarrow> cmp b c \<le> 0 \<Longrightarrow> cmp a c \<le> 0"
  shows "sorted_wrt (\<lambda>a b. cmp a b \<le> 0) xs \<Longrightarrow>
    sorted_wrt (\<lambda>a b. cmp a b \<le> 0) (insort_by cmp x xs)"
proof (induction xs)
  case Nil
  show ?case by simp
next
  case (Cons y ys)
  show ?case
  proof (cases "cmp x y \<le> 0")
    case True
    then have "\<forall>z\<in>set ys. cmp x z \<le> 0"
      using Cons.prems trans by auto
    with True Cons.prems show ?thesis by simp
  next
    case False
    then have "cmp y x \<le> 0"
      using tot [of x y] by simp
    with False Cons show ?thesis
      by (simp add: set_insort_by)
  qed
qed

lemma sorted_Array_sort:
  assumes "\<And>a b. cmp a b \<le> 0 \<or> cmp b a \<le> 0"
    and "\<And>a b c. cmp a b \<le> 0 \<Longrightarrow> cmp b c \<le> 0 \<Longrightarrow> cmp a c \<le> 0"
  shows "sorted_wrt (\<lambda>a b. cmp a b \<le> 0) (Array_sort cmp xs)"
  unfolding Array_sort_def
  by (induction xs) (simp_all add: sorted_insort_by [OF assms])

lemma sortedClasses_sorted:
  "sorted_wrt (\<lambda>a b. length (cg_name b) \<le> length (cg_name a))
     (Array_sort by_name_length_desc cs)"
proof -
  have "sorted_wrt (\<lambda>a b. by_name_length_desc a b \<le> 0) (Array_sort by_name_length_desc cs)"
    by (rule sorted_Array_sort) (auto simp: by_name_length_desc_def)
  then show ?thesis
    by (simp add: by_name_length_desc_def)
qed

lemma longer_name_first:
  assumes "C1 \<in> set cs" "C2 \<in> set cs" "length (cg_name C1) < length (cg_name C2)"
  shows "\<exists>pre post. Array_sort by_name_length_desc cs = pre @ C2 # post \<and>
           C1 \<notin> set pre \<and> C1 \<in> set post"
proof -
  let ?xs = "Array_sort by_name_length_desc cs"
  have "C2 \<in> set ?xs"
    using assms(2) by (simp add: set_Array_sort)
  then obtain pre post where xs: "?xs = pre @ C2 # post"
    by (meson split_list)
  have srt: "sorted_wrt (\<lambda>a b. length (cg_name b) \<le> length (cg_name a)) (pre @ C2 # post)"
    using sortedClasses_sorted [of cs] xs by simp
  then have "\<forall>a\<in>set pre. length (cg_name C2) \<le> length (cg_name a)"
    by (simp add: sorted_wrt_append)
  then have 1: "C1 \<notin> set pre"
    using assms(3) by auto
  have "C1 \<in> set ?xs"
    using assms(1) by (simp add: set_Array_sort)
  then have "C1 \<in> set post"
    using xs 1 assms(3) by auto
  with xs 1 show ?thesis by blast
qed


subsection \<open>The scan of the classes and the fallback\<close>

lemma try_class_no_prefix:
  "\<not> startsWith (toLowerCase i) (cleanName_of (cg_name cls)) \<Longrightarrow>
     try_class lc i cls db = (None, db)"
  by (simp add: try_class_def)

lemma scan_no_prefix:
  "\<forall>c\<in>set cs. \<not> startsWith (toLowerCase i) (cleanName_of (cg_name c)) \<Longrightarrow>
     scan lc i cs db = ((None, None), db)"
  by (induction cs) (simp_all add: try_class_no_prefix scan.simps(2))

lemma filter_key_distinct:
  "distinct (map f xs) \<Longrightarrow> r \<in> set xs \<Longrightarrow> filter (\<lambda>x. f x = f r) xs = [r]"
proof (induction xs)
  case Nil
  then show ?case by simp
next
  case (Cons x xs)
  show ?case
  proof (cases "x = r")
    case True
    then have "f r \<notin> f ` set xs"
      using Cons.prems(1) by simp
    then have "\<forall>y\<in>set xs. f y \<noteq> f r"
      by (metis imageI)
    then have "filter (\<lambda>x. f x = f r) xs = []"
      by (simp add: filter_empty_conv)
    with True show ?thesis by simp
  next
    case False
    then have "r \<in> set xs" using Cons.prems(2) by simp
    moreover from this have "f x \<noteq> f r" using Cons.prems(1) by auto
    ultimately show ?thesis using Cons by simp
  qed
qed

text \<open>
  C6. When the token starts with the clean name of a class but that class yields no
  student, in the numeric branch or in the UUID branch, the resolution does not stop
  there: its outcome is that of the classes tried before, else that of the classes that
  remain, else that of the lookup of the whole token; it is "not found" only if that
  last lookup finds nobody.
\<close>

theorem prefix_match_without_student_continues:
  assumes "i \<noteq> []"
    and "Array_sort by_name_length_desc (fst (getClasses db)) = pre @ cls # post"
    and "startsWith (toLowerCase i) (cleanName_of (cg_name cls))"
    and "fst (try_class lc i cls db) = None"
  shows "fst (fst (fetchData lc i db)) =
     (case fst (fst (scan lc i pre db)) of
        Some s \<Rightarrow> Some s
      | None \<Rightarrow>
          (case fst (fst (scan lc i post db)) of
             Some s \<Rightarrow> Some s
           | None \<Rightarrow> fst (getStudent i db)))"
proof -
  have "fst (scan lc i (cls # post) db) = fst (scan lc i post db)"
    using assms(4) by (simp add: scan_Cons)
  then have "fst (scan lc i (pre @ cls # post) db) =
      (case fst (fst (scan lc i pre db)) of
         Some s \<Rightarrow> fst (scan lc i pre db)
       | None \<Rightarrow> fst (scan lc i post db))"
    by (simp add: scan_append [of lc i pre "cls # post"] split: option.splits)
  then show ?thesis
    using assms(1,2) by (simp add: fetchData_student split: option.splits)
qed

theorem prefix_match_without_student_continues_witness:
  "''Grade1205'' \<noteq> [] \<and>
   Array_sort by_name_length_desc (fst (getClasses spaced_grades))
     = [] @ class_of spaced_grades 0 # [class_of spaced_grades 1] \<and>
   startsWith (toLowerCase ''Grade1205'') (cleanName_of (cg_name (class_of spaced_grades 0))) \<and>
   fst (try_class no_collation ''Grade1205'' (class_of spaced_grades 0) spaced_grades) = None \<and>
   fst (fst (fetchData no_collation ''Grade1205'' spaced_grades)) = Some (mapStudentFromDB bob)"
proof -
  have 1: "''Grade1205'' \<noteq> []"
    by simp
  have 2: "Array_sort by_name_length_desc (fst (getClasses spaced_grades))
     = [] @ class_of spaced_grades 0 # [class_of spaced_grades 1]"
    by code_simp
  have 3: "startsWith (toLowerCase ''Grade1205'')
     (cleanName_of (cg_name (class_of spaced_grades 0)))"
    by code_simp
  have 4: "fst (try_class no_collation ''Grade1205'' (class_of spaced_grades 0) spaced_grades)
     = None"
    by code_simp
  have 5: "fst (fst (scan no_collation ''Grade1205'' [] spaced_grades)) = None"
    by simp
  have 6: "fst (fst (scan no_collation ''Grade1205'' [class_of spaced_grades 1] spaced_grades))
     = Some (mapStudentFromDB bob)"
    by code_simp
  show ?thesis
    using 1 2 3 4 prefix_match_without_student_continues [OF 1 2 3 4]
    by (simp only: 5 6 option.case simp_thms)
qed

text \<open>
  C5. A token that is a bare UUID in canonical form, and that starts with no class's
  clean name, resolves to the student stored under that id (the id being the key of the
  student table): the class directory is read, no class is tried, and the student is
  found by the lookup of the whole token.
\<close>

theorem bare_uuid_resolves_by_fallback:
  assumes "canonical_uuid_form i"
    and "\<forall>c\<in>set (fst (getClasses db)). \<not> startsWith (toLowerCase i) (cleanName_of (cg_name c))"
    and "r \<in> set (students db)"
    and "sr_id r = toLowerCase i"
    and "distinct (map sr_id (students db))"
  shows "fst (fst (fetchData lc i db)) = Some (mapStudentFromDB r) \<and>
    prefix (issued db @ [SelectClasses, SelectStudent i]) (issued (snd (fetchData lc i db)))"
proof -
  let ?cs = "Array_sort by_name_length_desc (fst (getClasses db))"
  let ?db1 = "db\<lparr>issued := issued db @ [SelectClasses]\<rparr>"
  have v: "isValidUUID i"
    using assms(1) by (simp add: isValidUUID_iff)
  then have ne: "i \<noteq> []"
    by (auto simp: isValidUUID_def uuidRegex_def)
  have "filter (\<lambda>x. sr_id x = sr_id r) (students db) = [r]"
    using assms(3,5) by (rule filter_key_distinct [rotated])
  then have g: "getStudent i db' = (Some (mapStudentFromDB r), ask (SelectStudent i) db')"
    if "students db' = students db" for db'
    using v assms(4) that
    by (simp add: getStudent_def select_student_def uuid_in_def maybeSingle_def)
  have sc: "scan lc i ?cs ?db1 = ((None, None), ?db1)"
    using assms(2) by (intro scan_no_prefix) (simp add: set_Array_sort)
  have "fst (scan lc i ?cs db) = fst (scan lc i ?cs ?db1)"
    by (simp add: scan_log)
  then have 1: "fst (fst (fetchData lc i db)) = Some (mapStudentFromDB r)"
    using ne sc g [of db] by (simp add: fetchData_student)
  obtain q where "snd (fetchData lc i db)
      = db\<lparr>issued := issued db @ [SelectClasses, SelectStudent i] @ q\<rparr>"
  proof -
    let ?db2 = "db\<lparr>issued := issued db @ [SelectClasses, SelectStudent i]\<rparr>"
    have a: "getStudent i ?db1 = (Some (mapStudentFromDB r), ?db2)"
      using g [of ?db1] by (simp add: ask_def)
    have "\<exists>q. snd (getClass c ?db2) = ?db2\<lparr>issued := issued ?db2 @ q\<rparr>" for c
      by (auto simp: getClass_def select_class_def ask_def split: sum.splits option.splits)
    then have "\<exists>q. snd (fetchData lc i db)
      = db\<lparr>issued := issued db @ [SelectClasses, SelectStudent i] @ q\<rparr>"
      using ne sc a
      by (auto simp: fetchData_def Let_def getClasses_def select_classes_def ask_def
          case_prod_beta split: option.splits intro: exI [of _ "[]"])
    then show ?thesis using that by blast
  qed
  then have 2: "prefix (issued db @ [SelectClasses, SelectStudent i])
      (issued (snd (fetchData lc i db)))"
    by simp
  from 1 2 show ?thesis ..
qed


theorem bare_uuid_resolves_by_fallback_witness:
  "canonical_uuid_form ''BBBBBBBB-0000-4000-8000-000000000002'' \<and>
   bob \<in> set (students two_grades) \<and>
   sr_id bob = toLowerCase ''BBBBBBBB-0000-4000-8000-000000000002'' \<and>
   distinct (map sr_id (students two_grades)) \<and>
   fst (fst (fetchData no_collation ''BBBBBBBB-0000-4000-8000-000000000002'' two_grades))
     = Some (mapStudentFromDB bob) \<and>
   prefix (issued two_grades @
       [SelectClasses, SelectStudent ''BBBBBBBB-0000-4000-8000-000000000002''])
     (issued (snd (fetchData no_collation ''BBBBBBBB-0000-4000-8000-000000000002''
        two_grades)))"
proof -
  have "isValidUUID ''BBBBBBBB-0000-4000-8000-000000000002''"
    by code_simp
  then have 1: "canonical_uuid_form ''BBBBBBBB-0000-4000-8000-000000000002''"
    by (simp only: isValidUUID_iff)
  have 2: "\<forall>c\<in>set (fst (getClasses two_grades)).
      \<not> startsWith (toLowerCase ''BBBBBBBB-0000-4000-8000-000000000002'')
           (cleanName_of (cg_name c))"
    by code_simp
  have 3: "bob \<in> set (students two_grades)"
    by (simp add: two_grades_def)
  have 4: "sr_id bob = toLowerCase ''BBBBBBBB-0000-4000-8000-000000000002''"
    by code_simp
  have 5: "distinct (map sr_id (students two_grades))"
    by code_simp
  show ?thesis
    using 1 2 3 4 5 bare_uuid_resolves_by_fallback [OF 1 2 3 4 5, of no_collation]
    by blast
qed

text \<open>
  C1, as stated, fails: the classes are ordered by the length of their raw names, not of
  their clean names. In \<open>spaced_grades\<close> the clean name \<open>grade1\<close> is a strict prefix
  of \<open>grade12\<close>, the token \<open>Grade125\<close> starts with \<open>grade12\<close> and that class
  yields Bob, yet the class named \<open>G r a d e 1\<close> is tried first and wins with Ann.
\<close>

theorem longest_clean_prefix_counterexample:
  "class_of spaced_grades 0 \<in> set (fst (getClasses spaced_grades)) \<and>
   class_of spaced_grades 1 \<in> set (fst (getClasses spaced_grades)) \<and>
   strict_prefix (cleanName_of (cg_name (class_of spaced_grades 0)))
     (cleanName_of (cg_name (class_of spaced_grades 1))) \<and>
   startsWith (toLowerCase ''Grade125'') (cleanName_of (cg_name (class_of spaced_grades 1))) \<and>
   fst (try_class no_collation ''Grade125'' (class_of spaced_grades 1) spaced_grades)
     = Some (mapStudentFromDB bob) \<and>
   fst (fetchData no_collation ''Grade125'' spaced_grades)
     = (Some (mapStudentFromDB ann), Some (class_of spaced_grades 0))"
proof -
  have 1: "class_of spaced_grades 0 \<in> set (fst (getClasses spaced_grades))"
    by code_simp
  have 2: "class_of spaced_grades 1 \<in> set (fst (getClasses spaced_grades))"
    by code_simp
  have 3: "strict_prefix (cleanName_of (cg_name (class_of spaced_grades 0)))
     (cleanName_of (cg_name (class_of spaced_grades 1)))"
    by code_simp
  have 4: "startsWith (toLowerCase ''Grade125'')
     (cleanName_of (cg_name (class_of spaced_grades 1)))"
    by code_simp
  have 5: "fst (try_class no_collation ''Grade125'' (class_of spaced_grades 1) spaced_grades)
     = Some (mapStudentFromDB bob)"
    by code_simp
  have 6: "fst (fetchData no_collation ''Grade125'' spaced_grades)
     = (Some (mapStudentFromDB ann), Some (class_of spaced_grades 0))"
    by code_simp
  from 1 2 3 4 5 6 show ?thesis by blast
qed

text \<open>
  C1, amended. For classes C1 and C2 of the directory where the raw name of C2 is
  strictly longer than that of C1, C2 stands before C1 in the order of the resolver; when
  C2 yields a student for the token, the resolution returns that student with C2, unless
  a class tried before C2 has already yielded one. It never falls through to C1.
\<close>

theorem longer_raw_name_is_tried_first:
  assumes "i \<noteq> []"
    and "C1 \<in> set (fst (getClasses db))"
    and "C2 \<in> set (fst (getClasses db))"
    and "length (cg_name C1) < length (cg_name C2)"
    and "fst (try_class lc i C2 db) = Some s"
  shows "\<exists>pre post.
     Array_sort by_name_length_desc (fst (getClasses db)) = pre @ C2 # post \<and>
     C1 \<notin> set pre \<and> C1 \<in> set post \<and>
     fst (fetchData lc i db) =
       (case fst (fst (scan lc i pre db)) of
          Some s' \<Rightarrow> fst (scan lc i pre db)
        | None \<Rightarrow> (Some s, Some C2))"
proof -
  from longer_name_first [OF assms(2,3,4)] obtain pre post where
    xs: "Array_sort by_name_length_desc (fst (getClasses db)) = pre @ C2 # post" and
    p: "C1 \<notin> set pre" "C1 \<in> set post"
    by blast
  have c2: "fst (scan lc i (C2 # post) db) = (Some s, Some C2)"
    using assms(5) by (simp add: scan_Cons)
  have sc: "fst (scan lc i (pre @ C2 # post) db) =
       (case fst (fst (scan lc i pre db)) of
          Some s' \<Rightarrow> fst (scan lc i pre db)
        | None \<Rightarrow> (Some s, Some C2))"
    by (simp add: scan_append [of lc i pre "C2 # post"] c2 split: option.splits)
  have "fst (fst (scan lc i (pre @ C2 # post) db)) \<noteq> None"
    unfolding sc by (simp split: option.splits)
  then have "fst (fetchData lc i db) = fst (scan lc i (pre @ C2 # post) db)"
    using assms(1) xs by (auto simp: fetchData_fst)
  with sc xs p show ?thesis
    by (intro exI [of _ pre] exI [of _ post]) simp
qed

theorem longer_raw_name_is_tried_first_witness:
  "''Grade125'' \<noteq> [] \<and>
   class_of two_grades 0 \<in> set (fst (getClasses two_grades)) \<and>
   class_of two_grades 1 \<in> set (fst (getClasses two_grades)) \<and>
   length (cg_name (class_of two_grades 0)) < length (cg_name (class_of two_grades 1)) \<and>
   fst (try_class no_collation ''Grade125'' (class_of two_grades 1) two_grades)
     = Some (mapStudentFromDB bob) \<and>
   (\<exists>pre post.
     Array_sort by_name_length_desc (fst (getClasses two_grades))
       = pre @ class_of two_grades 1 # post \<and>
     class_of two_grades 0 \<notin> set pre \<and> class_of two_grades 0 \<in> set post \<and>
     fst (fetchData no_collation ''Grade125'' two_grades) =
       (case fst (fst (scan no_collation ''Grade125'' pre two_grades)) of
          Some s' \<Rightarrow> fst (scan no_collation ''Grade125'' pre two_grades)
        | None \<Rightarrow> (Some (mapStudentFromDB bob), Some (class_of two_grades 1))))"
proof -
  have 1: "''Grade125'' \<noteq> []"
    by simp
  have 2: "class_of two_grades 0 \<in> set (fst (getClasses two_grades))"
    by code_simp
  have 3: "class_of two_grades 1 \<in> set (fst (getClasses two_grades))"
    by code_simp
  have 4: "length (cg_name (class_of two_grades 0)) < length (cg_name (class_of two_grades 1))"
    by code_simp
  have 5: "fst (try_class no_collation ''Grade125'' (class_of two_grades 1) two_grades)
     = Some (mapStudentFromDB bob)"
    by code_simp
  show ?thesis
    using 1 2 3 4 5 longer_raw_name_is_tried_first [OF 1 2 3 4 5]
    by blast
qed

subsection \<open>Trimming\<close>

lemma rev_dropWhile_rev_head:
  assumes "t = [] \<or> \<not> P (hd t)"
  shows "rev (dropWhile P (rev t)) = [] \<or> \<not> P (hd (rev (dropWhile P (rev t))))"
proof -
  let ?y = "rev (dropWhile P (rev t))"
  have "rev t = takeWhile P (rev t) @ dropWhile P (rev t)"
    by simp
  then have "t = ?y @ rev (takeWhile P (rev t))"
    by (metis rev_append rev_rev_ident)
  then have *: "?y \<noteq> [] \<Longrightarrow> hd ?y = hd t \<and> t \<noteq> []"
    by (metis hd_append2 append_is_Nil_conv)
  show ?thesis
  proof (cases "?y = []")
    case True
    then show ?thesis by simp
  next
    case False
    with * assms show ?thesis by metis
  qed
qed

lemma trim_head: "trim s = [] \<or> \<not> is_space (hd (trim s))"
  unfolding trim_def
  by (rule rev_dropWhile_rev_head) (metis dropWhile_eq_Nil_conv hd_dropWhile)

lemma trim_last: "trim s = [] \<or> \<not> is_space (last (trim s))"
proof -
  let ?d = "dropWhile is_space (rev (dropWhile is_space s))"
  have "?d = [] \<or> \<not> is_space (hd ?d)"
    by (metis dropWhile_eq_Nil_conv hd_dropWhile)
  then show ?thesis
    unfolding trim_def by (auto simp: last_rev)
qed

lemma trim_self:
  assumes "s = [] \<or> \<not> is_space (hd s)" and "s = [] \<or> \<not> is_space (last s)"
  shows "trim s = s"
proof -
  have 1: "dropWhile is_space s = s"
    using assms(1) by (simp add: dropWhile_eq_self_iff)
  have "rev s = [] \<or> \<not> is_space (hd (rev s))"
    using assms(2) by (auto simp: hd_rev)
  then have "dropWhile is_space (rev s) = rev s"
    by (simp add: dropWhile_eq_self_iff)
  with 1 show ?thesis
    by (simp add: trim_def)
qed

lemma trim_trim: "trim (trim s) = trim s"
  by (rule trim_self) (rule trim_head, rule trim_last)

lemma trim_cleanRemainder:
  "trim (cleanRemainder_of i n) = cleanRemainder_of i n"
  by (simp add: cleanRemainder_of_def Let_def trim_trim)


subsection \<open>The numeric branch\<close>

lemma numeric_case_trimmed:
  assumes "trim r = r"
  shows "numeric_case r =
    (r \<noteq> [] \<and> length r < 10 \<and> (StrDecimalLiteral r \<or> NonDecimalIntegerLiteral r))"
  using assms by (auto simp: numeric_case_def isNaN_Number_def Let_def)

lemma digits_not_space: "list_all is_digit r \<Longrightarrow> trim r = r"
proof (rule trim_self)
  assume a: "list_all is_digit r"
  have n: "is_digit c \<Longrightarrow> \<not> is_space c" for c
    by (auto simp: is_digit_def is_space_def)
  show "r = [] \<or> \<not> is_space (hd r)"
    using a n by (cases r) auto
  show "r = [] \<or> \<not> is_space (last r)"
    using a n by (cases r rule: rev_cases) auto
qed

lemma digits_StrDecimalLiteral:
  assumes "r \<noteq> []" "list_all is_digit r"
  shows "StrDecimalLiteral r"
proof -
  obtain c r' where r: "r = c # r'"
    using assms(1) by (cases r) auto
  have d: "is_digit c"
    using assms(2) r by simp
  then have "c \<noteq> CHR ''+''" "c \<noteq> CHR ''-''"
    by (auto simp: is_digit_def cu_def)
  moreover have tw: "takeWhile is_digit r = r" and dw: "dropWhile is_digit r = []"
    using assms(2) by (simp_all add: list_all_iff)
  have "UnsignedDecimalDigits r"
    unfolding UnsignedDecimalDigits_def Let_def tw dw using assms(1) by simp
  ultimately show ?thesis
    by (simp add: StrDecimalLiteral_def StrUnsignedDecimalLiteral_def r)
qed

lemma short_decimal_digits_numeric_case: "short_decimal_digits r \<Longrightarrow> numeric_case r"
  by (simp add: short_decimal_digits_def numeric_case_trimmed digits_not_space
      digits_StrDecimalLiteral)

lemma getStudent_queries:
  "\<exists>q. snd (getStudent r db) = db\<lparr>issued := issued db @ q\<rparr> \<and> set q \<subseteq> {SelectStudent r}"
proof (cases "isValidUUID r")
  case False
  then have "snd (getStudent r db) = db\<lparr>issued := issued db @ []\<rparr>"
    by (simp add: getStudent_def)
  then show ?thesis by (intro exI [of _ "[]"]) simp
next
  case True
  then have "snd (getStudent r db) = db\<lparr>issued := issued db @ [SelectStudent r]\<rparr>"
    by (simp add: getStudent_def select_student_def ask_def split: sum.splits option.splits)
  then show ?thesis by (intro exI [of _ "[SelectStudent r]"]) simp
qed

lemma try_class_queries:
  assumes "startsWith (toLowerCase i) (cleanName_of (cg_name cls))"
  shows "\<exists>q. set q \<subseteq> {SelectStudent (cleanRemainder_of i (cleanName_of (cg_name cls)))} \<and>
    queries_of db (snd (try_class lc i cls db)) =
      (if numeric_case (cleanRemainder_of i (cleanName_of (cg_name cls)))
       then [SelectStudentsOfClass (cg_id cls)] else []) @ q"
proof -
  let ?r = "cleanRemainder_of i (cleanName_of (cg_name cls))"
  let ?db1 = "db\<lparr>issued := issued db @ [SelectStudentsOfClass (cg_id cls)]\<rparr>"
  obtain q0 where q0: "snd (getStudent ?r db) = db\<lparr>issued := issued db @ q0\<rparr>"
    "set q0 \<subseteq> {SelectStudent ?r}"
    using getStudent_queries by blast
  obtain q1 where q1: "snd (getStudent ?r ?db1) = ?db1\<lparr>issued := issued ?db1 @ q1\<rparr>"
    "set q1 \<subseteq> {SelectStudent ?r}"
    using getStudent_queries by blast
  show ?thesis
  proof (cases "numeric_case ?r")
    case True
    then have "queries_of db (snd (try_class lc i cls db)) = [SelectStudentsOfClass (cg_id cls)]
      \<or> queries_of db (snd (try_class lc i cls db)) = [SelectStudentsOfClass (cg_id cls)] @ q1"
      using assms q1(1)
      by (simp add: try_class_def Let_def case_prod_beta getStudents_snd queries_of_def
          split: option.splits)
    then show ?thesis
      using True q1(2) by (auto intro: exI [of _ "[]"])
  next
    case False
    then have "queries_of db (snd (try_class lc i cls db)) = []
      \<or> queries_of db (snd (try_class lc i cls db)) = q0"
      using assms q0(1)
      by (simp add: try_class_def Let_def queries_of_def)
    then show ?thesis
      using False q0(2) by (auto intro: exI [of _ "[]"])
  qed
qed

text \<open>
  C2, amended. For a token whose lower-case form starts with the clean name of a class,
  the numeric branch is taken (the student directory of the class is fetched) if and only
  if the trimmed remainder is non-empty, shorter than 10 characters and a numeric literal
  for \<open>Number\<close>: an optionally signed decimal literal (with optional fraction and
  exponent) or \<open>Infinity\<close>, or an integer literal with prefix \<open>0x\<close>, \<open>0o\<close> or
  \<open>0b\<close>. Every non-empty string of fewer than 10 decimal digits takes the branch.
\<close>

theorem numeric_branch_condition:
  assumes "startsWith (toLowerCase i) (cleanName_of (cg_name cls))"
    and "r = cleanRemainder_of i (cleanName_of (cg_name cls))"
  shows "(SelectStudentsOfClass (cg_id cls) \<in> set (queries_of db (snd (try_class lc i cls db))))
      = (r \<noteq> [] \<and> length r < 10 \<and> (StrDecimalLiteral r \<or> NonDecimalIntegerLiteral r)) \<and>
    (short_decimal_digits r \<longrightarrow>
      SelectStudentsOfClass (cg_id cls) \<in> set (queries_of db (snd (try_class lc i cls db))))"
proof -
  from try_class_queries [OF assms(1), of db lc] obtain q where
    q: "set q \<subseteq> {SelectStudent r}"
    "queries_of db (snd (try_class lc i cls db)) =
      (if numeric_case r then [SelectStudentsOfClass (cg_id cls)] else []) @ q"
    unfolding assms(2) by blast
  have "SelectStudentsOfClass (cg_id cls) \<notin> set q"
    using q(1) by auto
  then have a: "(SelectStudentsOfClass (cg_id cls) \<in>
      set (queries_of db (snd (try_class lc i cls db)))) = numeric_case r"
    using q(2) by simp
  have "trim r = r"
    unfolding assms(2) by (rule trim_cleanRemainder)
  then show ?thesis
    using a short_decimal_digits_numeric_case [of r] by (simp add: numeric_case_trimmed)
qed

theorem numeric_branch_condition_witness:
  "startsWith (toLowerCase ''5thGrade12'') (cleanName_of (cg_name (class_of fifth_grade 0))) \<and>
   ''12'' = cleanRemainder_of ''5thGrade12'' (cleanName_of (cg_name (class_of fifth_grade 0))) \<and>
   short_decimal_digits ''12'' \<and>
   SelectStudentsOfClass (cg_id (class_of fifth_grade 0)) \<in>
     set (queries_of fifth_grade
       (snd (try_class no_collation ''5thGrade12'' (class_of fifth_grade 0) fifth_grade)))"
proof -
  have 1: "startsWith (toLowerCase ''5thGrade12'')
      (cleanName_of (cg_name (class_of fifth_grade 0)))"
    by code_simp
  have 2: "''12'' = cleanRemainder_of ''5thGrade12''
      (cleanName_of (cg_name (class_of fifth_grade 0)))"
    by code_simp
  have 3: "short_decimal_digits ''12''"
    by code_simp
  show ?thesis
    using 1 2 3 numeric_branch_condition [OF 1 2, of fifth_grade no_collation]
    by blast
qed

text \<open>
  C2, as stated, fails: a remainder need not be a string of digits. The token
  \<open>5thGrade-5\<close> leaves the remainder \<open>-5\<close>, and the directory of the class is
  fetched; a fraction, an exponent and a hex literal satisfy the condition as well.
\<close>

theorem numeric_branch_counterexample:
  "startsWith (toLowerCase ''5thGrade-5'') (cleanName_of (cg_name (class_of fifth_grade 0))) \<and>
   cleanRemainder_of ''5thGrade-5'' (cleanName_of (cg_name (class_of fifth_grade 0))) = ''-5'' \<and>
   \<not> short_decimal_digits ''-5'' \<and>
   SelectStudentsOfClass (cg_id (class_of fifth_grade 0)) \<in>
     set (queries_of fifth_grade
       (snd (try_class no_collation ''5thGrade-5'' (class_of fifth_grade 0) fifth_grade))) \<and>
   numeric_case ''1.5'' \<and> numeric_case ''1e3'' \<and> numeric_case ''0x1F''"
proof -
  have 1: "startsWith (toLowerCase ''5thGrade-5'')
      (cleanName_of (cg_name (class_of fifth_grade 0)))"
    by code_simp
  have 2: "cleanRemainder_of ''5thGrade-5'' (cleanName_of (cg_name (class_of fifth_grade 0)))
      = ''-5''"
    by code_simp
  have 3: "\<not> short_decimal_digits ''-5''"
    by code_simp
  have 4: "SelectStudentsOfClass (cg_id (class_of fifth_grade 0)) \<in>
     set (queries_of fifth_grade
       (snd (try_class no_collation ''5thGrade-5'' (class_of fifth_grade 0) fifth_grade)))"
    by code_simp
  have 5: "numeric_case ''1.5''" "numeric_case ''1e3''" "numeric_case ''0x1F''"
    by code_simp+
  from 1 2 3 4 5 show ?thesis by blast
qed

subsection \<open>Characters\<close>

lemma cu_less: "cu c < 256"
  by (simp add: cu_def)

lemma cu_inject: "cu c = cu d \<longleftrightarrow> c = d"
  by (simp add: cu_def)

lemma cu_lower_char:
  "cu (lower_char c) =
     (if (65 \<le> cu c \<and> cu c \<le> 90) \<or> (192 \<le> cu c \<and> cu c \<le> 222 \<and> cu c \<noteq> 215)
      then cu c + 32 else cu c)"
proof -
  have "cu c \<le> 222 \<Longrightarrow> (of_char (char_of (cu c + 32) :: char) :: nat) = cu c + 32"
    by (simp add: of_char_of)
  then show ?thesis
    by (auto simp: lower_char_def cu_def)
qed

lemma cu_underscore: "cu (CHR ''_'') = 95"
  by (simp add: cu_def)

lemma lower_char_underscore [simp]: "lower_char (CHR ''_'') = CHR ''_''"
  by (simp add: lower_char_def cu_underscore)





subsection \<open>The underscore separator\<close>









subsection \<open>Case\<close>

lemma lower_char_eq_iff: "lower_char c = d \<longleftrightarrow> cu (lower_char c) = cu d"
  by (simp add: cu_inject)

lemma is_space_lower [simp]: "is_space (lower_char c) = is_space c"
  by (auto simp: is_space_def cu_lower_char)

lemma is_digit_lower [simp]: "is_digit (lower_char c) = is_digit c"
  by (auto simp: is_digit_def cu_lower_char)

lemma is_hex_lower [simp]: "is_hex (lower_char c) = is_hex c"
  by (auto simp: is_hex_def is_digit_def cu_lower_char)

lemma lower_char_idem [simp]: "lower_char (lower_char c) = lower_char c"
  unfolding lower_char_eq_iff by (auto simp: cu_lower_char)







subsection \<open>Functions that do not see the case\<close>

lemma toLowerCase_simps [simp]:
  "toLowerCase [] = []" "toLowerCase (c # s) = lower_char c # toLowerCase s"
  "toLowerCase (a @ b) = toLowerCase a @ toLowerCase b"
  "length (toLowerCase s) = length s"
  by (simp_all add: toLowerCase_def)

lemma toLowerCase_Nil_iff [simp]: "toLowerCase s = [] \<longleftrightarrow> s = []"
  by (simp add: toLowerCase_def)


































subsection \<open>The order of the students of a class\<close>

lemma uniqueId_below_MAX_SAFE_INTEGER:
  "st_uniqueId (mapStudentFromDB r) = Some n \<Longrightarrow> n < MAX_SAFE_INTEGER"
proof -
  have "sint w < MAX_SAFE_INTEGER" for w :: "32 word"
    using sint_lt [of w] by (simp add: MAX_SAFE_INTEGER_def)
  then show "st_uniqueId (mapStudentFromDB r) = Some n \<Longrightarrow> n < MAX_SAFE_INTEGER"
    by (auto simp: mapStudentFromDB_def split: option.splits if_splits)
qed

lemma by_uniqueId_then_name_le:
  "by_uniqueId_then_name lc a b \<le> 0 \<longleftrightarrow>
     (let idA = (case st_uniqueId a of None \<Rightarrow> MAX_SAFE_INTEGER | Some n \<Rightarrow> n);
          idB = (case st_uniqueId b of None \<Rightarrow> MAX_SAFE_INTEGER | Some n \<Rightarrow> n)
      in idA < idB \<or> (idA = idB \<and> lc (st_name a) (st_name b) \<le> 0))"
  by (auto simp: by_uniqueId_then_name_def Let_def)

lemma getStudents_fst_set:
  "s \<in> set (fst (getStudents lc c db)) \<Longrightarrow> \<exists>r. s = mapStudentFromDB r"
  by (auto simp: getStudents_def select_students_by_name_def set_Array_sort
      split: sum.splits)

text \<open>
  C10. For a host collation that is a total preorder of the names, the list that
  \<open>getStudents\<close> returns for a class is sorted: a student without a \<open>uniqueId\<close> is
  followed only by students without one, students with a \<open>uniqueId\<close> are in ascending
  order of it, and two students with the same \<open>uniqueId\<close>, or both without one, are in
  the order of the collation of their names.
\<close>

theorem getStudents_sorted:
  assumes "\<forall>x y. lc x y \<le> 0 \<or> lc y x \<le> 0"
    and "\<forall>x y z. lc x y \<le> 0 \<longrightarrow> lc y z \<le> 0 \<longrightarrow> lc x z \<le> 0"
  shows "sorted_wrt
     (\<lambda>a b. (st_uniqueId a = None \<longrightarrow> st_uniqueId b = None) \<and>
            (\<forall>m n. st_uniqueId a = Some m \<longrightarrow> st_uniqueId b = Some n \<longrightarrow> m \<le> n) \<and>
            (st_uniqueId a = st_uniqueId b \<longrightarrow> lc (st_name a) (st_name b) \<le> 0))
     (fst (getStudents lc classId db))"
proof -
  let ?cmp = "by_uniqueId_then_name lc"
  have tot: "?cmp a b \<le> 0 \<or> ?cmp b a \<le> 0" for a b
    using assms(1) [rule_format, of "st_name a" "st_name b"]
    unfolding by_uniqueId_then_name_le Let_def by auto
  have trans: "?cmp a b \<le> 0 \<Longrightarrow> ?cmp b c \<le> 0 \<Longrightarrow> ?cmp a c \<le> 0" for a b c
    using assms(2) [rule_format, of "st_name a" "st_name b" "st_name c"]
    unfolding by_uniqueId_then_name_le Let_def by auto
  have srt: "sorted_wrt (\<lambda>a b. ?cmp a b \<le> 0) (fst (getStudents lc classId db))"
  proof (cases "fst (select_students_by_name classId db)")
    case (Inl e)
    then show ?thesis
      by (simp add: getStudents_def case_prod_beta)
  next
    case (Inr data)
    then have "fst (getStudents lc classId db) = Array_sort ?cmp (map mapStudentFromDB data)"
      by (simp add: getStudents_def case_prod_beta)
    then show ?thesis
      using sorted_Array_sort [of ?cmp, OF tot trans] by simp
  qed
  show ?thesis
  proof (rule sorted_wrt_mono_rel [OF _ srt])
    fix a b
    assume "a \<in> set (fst (getStudents lc classId db))"
      and "b \<in> set (fst (getStudents lc classId db))"
      and le: "?cmp a b \<le> 0"
    then obtain ra rb where "a = mapStudentFromDB ra" "b = mapStudentFromDB rb"
      using getStudents_fst_set by blast
    then have bnd: "\<And>n. st_uniqueId a = Some n \<Longrightarrow> n < MAX_SAFE_INTEGER"
      "\<And>n. st_uniqueId b = Some n \<Longrightarrow> n < MAX_SAFE_INTEGER"
      using uniqueId_below_MAX_SAFE_INTEGER by blast+
    show "(st_uniqueId a = None \<longrightarrow> st_uniqueId b = None) \<and>
            (\<forall>m n. st_uniqueId a = Some m \<longrightarrow> st_uniqueId b = Some n \<longrightarrow> m \<le> n) \<and>
            (st_uniqueId a = st_uniqueId b \<longrightarrow> lc (st_name a) (st_name b) \<le> 0)"
      using le bnd unfolding by_uniqueId_then_name_le Let_def
      by (cases "st_uniqueId a"; cases "st_uniqueId b") auto
  qed
qed


lemma text_le_refl: "text_le x x"
  by (induction x) simp_all

lemma text_le_total: "text_le x y \<or> text_le y x"
proof (induction x y rule: text_le.induct)
  case (1 ys)
  show ?case by simp
next
  case (2 x xs)
  show ?case by simp
next
  case (3 x xs y ys)
  have "cu x < cu y \<or> cu y < cu x \<or> x = y"
    using cu_inject [of x y] by auto
  with 3 show ?case by auto
qed

lemma text_le_trans: "text_le x y \<Longrightarrow> text_le y z \<Longrightarrow> text_le x z"
proof (induction x arbitrary: y z)
  case Nil
  show ?case by simp
next
  case (Cons a x)
  from Cons.prems obtain b y' where y: "y = b # y'"
    by (cases y) auto
  from Cons.prems y obtain c z' where z: "z = c # z'"
    by (cases z) auto
  from Cons.prems show ?case
    unfolding y z using Cons.IH [of y' z'] by auto
qed

lemma code_unit_collation_le: "code_unit_collation x y \<le> 0 \<longleftrightarrow> text_le x y"
  by (simp add: code_unit_collation_def text_le_refl)

theorem getStudents_sorted_witness:
  "fst (getStudents code_unit_collation ''aaaaaaaa-0000-4000-8000-000000000005'' art_class)
     = map mapStudentFromDB [hal, gus, abe, fay] \<and>
   map st_uniqueId
     (fst (getStudents code_unit_collation ''aaaaaaaa-0000-4000-8000-000000000005'' art_class))
     = [Some 1, Some 3, None, None]"
proof -
  have 1: "\<forall>x y. code_unit_collation x y \<le> 0 \<or> code_unit_collation y x \<le> 0"
    using text_le_total by (simp add: code_unit_collation_le)
  have 2: "\<forall>x y z. code_unit_collation x y \<le> 0 \<longrightarrow> code_unit_collation y z \<le> 0 \<longrightarrow>
      code_unit_collation x z \<le> 0"
    using text_le_trans unfolding code_unit_collation_le by blast
  have 3: "fst (getStudents code_unit_collation ''aaaaaaaa-0000-4000-8000-000000000005''
      art_class) = map mapStudentFromDB [hal, gus, abe, fay]"
    by code_simp
  have 4: "map st_uniqueId (map mapStudentFromDB [hal, gus, abe, fay])
      = [Some 1, Some 3, None, None]"
    by (simp add: mapStudentFromDB_def hal_def gus_def abe_def fay_def example_student_def)
  show ?thesis
    using 3 4
      getStudents_sorted [OF 1 2, of "''aaaaaaaa-0000-4000-8000-000000000005''" art_class]
    by simp
qed

subsection \<open>The number of a saved student\<close>












subsection \<open>The decimal text of a number\<close>





















subsection \<open>The display identifier\<close>













end
